theory Spec2Isabelle
  imports Complex_Main "HOL-Library.Word" "HOL-Library.Char_ord" "HOL-Library.List_Lexorder"
begin


section \<open>The arithmetic of float64\<close>

text \<open>
  Python and pandas compute with IEEE 754 binary64. A finite float64 is a multiple of a
  power of two with at most 53 significant bits, the power no smaller than \<open>2^-1074\<close>; the
  result of an operation is the exact result rounded to the nearest such number, to the
  one with the even last bit on a tie. A finite float64 is written here as the real
  number it denotes (the two zeros are one); \<open>round64\<close> is the rounding, with no upper
  limit on the exponent.
\<close>

definition round_half_even :: "real \<Rightarrow> int" where
  "round_half_even q =
     (if q - of_int \<lfloor>q\<rfloor> < 1 / 2 then \<lfloor>q\<rfloor>
      else if 1 / 2 < q - of_int \<lfloor>q\<rfloor> then \<lfloor>q\<rfloor> + 1
      else if even \<lfloor>q\<rfloor> then \<lfloor>q\<rfloor> else \<lfloor>q\<rfloor> + 1)"

text \<open>The exponent of the last bit of the float64 numbers around a real number.\<close>

definition ulp_exponent :: "real \<Rightarrow> int" where
  "ulp_exponent r = max (\<lfloor>log 2 \<bar>r\<bar>\<rfloor> - 52) (- 1074)"

definition round64 :: "real \<Rightarrow> real" where
  "round64 r =
     (if r = 0 then 0
      else of_int (round_half_even (r / 2 powr of_int (ulp_exponent r))) *
           2 powr of_int (ulp_exponent r))"

text \<open>
  Multiplication and division of two finite float64 numbers whose result stays below the
  overflow threshold \<open>2^1024\<close>, as all results of mask\_area.py do.
\<close>

definition fmul :: "real \<Rightarrow> real \<Rightarrow> real" where
  "fmul x y = round64 (x * y)"

definition fdiv :: "real \<Rightarrow> real \<Rightarrow> real" where
  "fdiv x y = round64 (x / y)"

section \<open>Tables of the spreadsheet pipeline (excel\_dvs\_data.py)\<close>

text \<open>
  A cell of a pandas column: missing (\<open>NaN\<close>, also standing for \<open>None\<close>), a float64
  number (a finite one, or one of the two infinities, which are not missing), a number
  of an int64 column, or a string. The run ids that \<open>cumsum\<close> counts are written as
  \<open>Num\<close>: they are whole numbers no larger than the number of rows.
\<close>

datatype cell = NaN | Num real | PInf | NInf | I64 "64 word" | Str string

type_synonym series = "cell list"

text \<open>
  A DataFrame: its columns in order, each a name and the values of its rows. The names
  are distinct in the tables that \<open>read_excel\<close> delivers; a lookup by name finds the first
  column of that name.
\<close>

type_synonym dataframe = "(string \<times> series) list"

datatype error = KeyError | TypeError | ValueError

definition columns :: "dataframe \<Rightarrow> string list" where
  "columns df = map fst df"

text \<open>\<open>df[column]\<close>: the column of that name, KeyError when there is none.\<close>

definition getitem :: "dataframe \<Rightarrow> string \<Rightarrow> error + series" where
  "getitem df column = (case map_of df column of None \<Rightarrow> Inl KeyError | Some s \<Rightarrow> Inr s)"

text \<open>\<open>df[column] = s\<close>: replaces the column in place, or appends it as the last one.\<close>

definition setitem :: "dataframe \<Rightarrow> string \<Rightarrow> series \<Rightarrow> dataframe" where
  "setitem df column s =
     (if column \<in> set (columns df)
      then map (\<lambda>(c, v). if c = column then (c, s) else (c, v)) df
      else df @ [(column, s)])"

text \<open>\<open>df.drop(columns=[column], inplace=True)\<close>: KeyError when the column is absent.\<close>

definition drop_column :: "dataframe \<Rightarrow> string \<Rightarrow> error + dataframe" where
  "drop_column df column =
     (if column \<in> set (columns df) then Inr (filter (\<lambda>(c, v). c \<noteq> column) df)
      else Inl KeyError)"

definition notna :: "series \<Rightarrow> bool list" where
  "notna s = map (\<lambda>c. c \<noteq> NaN) s"

definition any_true :: "bool list \<Rightarrow> bool" where
  "any_true bs = (True \<in> set bs)"

text \<open>
  \<open>s.shift()\<close>: every value moves one row down, the first row becomes missing and the
  last value is dropped.
\<close>

definition shift :: "series \<Rightarrow> series" where
  "shift s = (if s = [] then [] else NaN # butlast s)"

text \<open>
  Elementwise \<open>!=\<close> of a column and its shift: a missing value on either side compares
  as unequal, also to another missing value. The shift of an int64 column is a float64
  column, so two of its numbers are compared after conversion to float64; a number of
  an int64 cell and a float in a column of objects are compared exactly, as Python does.
\<close>

fun ne_cell :: "cell \<Rightarrow> cell \<Rightarrow> bool" where
  "ne_cell NaN b = True"
| "ne_cell a NaN = True"
| "ne_cell (I64 a) (I64 b) =
     (round64 (real_of_int (sint a)) \<noteq> round64 (real_of_int (sint b)))"
| "ne_cell (I64 a) (Num y) = (real_of_int (sint a) \<noteq> y)"
| "ne_cell (Num x) (I64 b) = (x \<noteq> real_of_int (sint b))"
| "ne_cell a b = (a \<noteq> b)"

definition ne_series :: "series \<Rightarrow> series \<Rightarrow> bool list" where
  "ne_series s t = map2 ne_cell s t"

text \<open>\<open>cumsum\<close>: the running sum; on a column of booleans True counts as 1.\<close>

fun cumsum_from :: "int \<Rightarrow> int list \<Rightarrow> int list" where
  "cumsum_from acc [] = []"
| "cumsum_from acc (x # xs) = (acc + x) # cumsum_from (acc + x) xs"

definition cumsum :: "int list \<Rightarrow> int list" where
  "cumsum xs = cumsum_from 0 xs"

definition cumsum_bool :: "bool list \<Rightarrow> int list" where
  "cumsum_bool bs = cumsum (map (\<lambda>b. if b then 1 else 0) bs)"

definition int_series :: "int list \<Rightarrow> series" where
  "int_series ks = map (\<lambda>k. Num (of_int k)) ks"

subsection \<open>solvent\_a\_or\_b and check\_for\_needed\_columns\<close>

definition solvent_column :: "string \<Rightarrow> string" where
  "solvent_column solvent = ''Target Partial Pressure (Solvent '' @ solvent @ '') [%]''"

fun solvent_loop :: "dataframe \<Rightarrow> string list \<Rightarrow> string" where
  "solvent_loop df [] = ''Target Partial Pressure (Solvent A or B)''"
| "solvent_loop df (solvent # rest) =
     (if solvent_column solvent \<in> set (columns df) then solvent_column solvent
      else solvent_loop df rest)"

definition solvent_a_or_b :: "dataframe \<Rightarrow> string" where
  "solvent_a_or_b df = solvent_loop df [''A'', ''B'']"

definition needed_columns :: "string \<Rightarrow> string list" where
  "needed_columns pressure_solvent_column =
     [''Time [minutes]'', ''Moisture content %'', ''RH Direction'', pressure_solvent_column]"

definition quoted :: "string \<Rightarrow> string" where
  "quoted s = [CHR 0x27] @ s @ [CHR 0x27]"

definition msg_full_of_nan :: "string \<Rightarrow> string" where
  "msg_full_of_nan column =
     ''ERROR: Column '' @ quoted column @ '' exists but is full of NaN values.''"

definition msg_does_not_exist :: "string \<Rightarrow> string" where
  "msg_does_not_exist column = ''ERROR: '' @ quoted column @ '' column does not exist''"

text \<open>
  The loop of check\_for\_needed\_columns over the needed columns. The result is the
  returned boolean together with the lines sent to \<open>logging.error\<close>. Where two columns
  of the table carry the name, \<open>df[column]\<close> is a table, \<open>notna().any()\<close> has one
  truth value for each of them, and \<open>not\<close> of that raises ValueError.
\<close>

fun check_loop :: "dataframe \<Rightarrow> string list \<Rightarrow> error + (bool \<times> string list)" where
  "check_loop df [] = Inr (True, [])"
| "check_loop df (column # rest) =
     (if column \<in> set (columns df) then
        (if 1 < count_list (columns df) column then Inl ValueError
         else
           (case getitem df column of
              Inl e \<Rightarrow> Inl e
            | Inr s \<Rightarrow>
                if \<not> any_true (notna s) then Inr (False, [msg_full_of_nan column])
                else check_loop df rest))
      else Inr (False, [msg_does_not_exist column]))"

definition check_for_needed_columns ::
  "dataframe \<Rightarrow> string \<Rightarrow> error + (bool \<times> string list)" where
  "check_for_needed_columns df pressure_solvent_column =
     check_loop df (needed_columns pressure_solvent_column)"

subsection \<open>add\_change\_column and add\_normalised\_column\<close>

text \<open>The run ids of a column: \<open>(s != s.shift()).cumsum()\<close>.\<close>

definition change_ids :: "series \<Rightarrow> int list" where
  "change_ids s = cumsum_bool (ne_series s (shift s))"

definition add_change_column :: "dataframe \<Rightarrow> string \<Rightarrow> string \<Rightarrow> error + dataframe" where
  "add_change_column df target_column new_column_name =
     (case getitem df target_column of
        Inl e \<Rightarrow> Inl e
      | Inr s \<Rightarrow> Inr (setitem df new_column_name (int_series (change_ids s))))"

text \<open>
  \<open>GroupBy.first\<close> of pandas: the first entry of the group that is not missing, and
  missing when the group has none.
\<close>

fun first_valid :: "series \<Rightarrow> cell" where
  "first_valid [] = NaN"
| "first_valid (c # cs) = (if c = NaN then first_valid cs else c)"

text \<open>
  \<open>df.groupby(grouping_column)[target_column].transform("first")\<close>: every row receives
  the first non-missing target value among all rows with its grouping value. Rows whose
  grouping value is missing belong to no group and receive a missing value.
\<close>

definition groupby_transform_first :: "series \<Rightarrow> series \<Rightarrow> series" where
  "groupby_transform_first keys vals =
     map (\<lambda>k. if k = NaN then NaN
              else first_valid (map snd (filter (\<lambda>(k', v). k' = k) (zip keys vals)))) keys"

text \<open>
  The float64 nearest to a real number: beyond the largest finite float64 it is an
  infinity.
\<close>

definition float_cell :: "real \<Rightarrow> cell" where
  "float_cell r =
     (if 2 ^ 1024 \<le> \<bar>round64 r\<bar> then (if 0 < r then PInf else NInf)
      else Num (round64 r))"

fun to_float :: "cell \<Rightarrow> cell" where
  "to_float (I64 a) = Num (round64 (real_of_int (sint a)))"
| "to_float c = c"

text \<open>Subtraction in float64: the difference of two equal infinities is not a number.\<close>

fun sub_float :: "cell \<Rightarrow> cell \<Rightarrow> cell" where
  "sub_float (Num x) (Num y) = float_cell (x - y)"
| "sub_float (Num x) PInf = NInf"
| "sub_float (Num x) NInf = PInf"
| "sub_float PInf (Num y) = PInf"
| "sub_float PInf NInf = PInf"
| "sub_float NInf (Num y) = NInf"
| "sub_float NInf PInf = NInf"
| "sub_float a b = NaN"

text \<open>
  Subtraction of two cells. A missing operand gives a missing result; a string operand
  is Python's TypeError; two numbers of an int64 column subtract modulo \<open>2^64\<close>; all
  other numbers subtract as float64.
\<close>

fun sub_cell :: "cell \<Rightarrow> cell \<Rightarrow> error + cell" where
  "sub_cell NaN b = Inr NaN"
| "sub_cell a NaN = Inr NaN"
| "sub_cell (Str s) b = Inl TypeError"
| "sub_cell a (Str s) = Inl TypeError"
| "sub_cell (I64 a) (I64 b) = Inr (I64 (a - b))"
| "sub_cell a b = Inr (sub_float (to_float a) (to_float b))"

fun sub_series :: "series \<Rightarrow> series \<Rightarrow> error + series" where
  "sub_series (a # as) (b # bs) =
     (case sub_cell a b of
        Inl e \<Rightarrow> Inl e
      | Inr c \<Rightarrow> (case sub_series as bs of Inl e \<Rightarrow> Inl e | Inr cs \<Rightarrow> Inr (c # cs)))"
| "sub_series as bs = Inr []"

definition add_normalised_column ::
  "dataframe \<Rightarrow> string \<Rightarrow> string \<Rightarrow> string \<Rightarrow> error + dataframe" where
  "add_normalised_column df grouping_column target_column new_column_name =
     (case getitem df grouping_column of
        Inl e \<Rightarrow> Inl e
      | Inr keys \<Rightarrow>
     (case getitem df target_column of
        Inl e \<Rightarrow> Inl e
      | Inr vals \<Rightarrow>
     (let df1 = setitem df (target_column @ ''_at_change'')
                  (groupby_transform_first keys vals) in
     (case getitem df1 target_column of
        Inl e \<Rightarrow> Inl e
      | Inr tv \<Rightarrow>
     (case getitem df1 (target_column @ ''_at_change'') of
        Inl e \<Rightarrow> Inl e
      | Inr at_change \<Rightarrow>
     (case sub_series tv at_change of
        Inl e \<Rightarrow> Inl e
      | Inr d \<Rightarrow>
          drop_column (setitem df1 (new_column_name @ '' NEW'') d)
            (target_column @ ''_at_change'')))))))"

subsection \<open>The pipeline of one sheet and of the workbook\<close>

definition add_pressure_change_columns :: "dataframe \<Rightarrow> string \<Rightarrow> error + dataframe" where
  "add_pressure_change_columns df pressure_solvent_column =
     (case add_change_column df pressure_solvent_column ''Pressure Change'' of
        Inl e \<Rightarrow> Inl e
      | Inr df1 \<Rightarrow>
     (case add_normalised_column df1 ''Pressure Change'' ''Time [minutes]''
             ''Normalised time (Individual RH Steps)'' of
        Inl e \<Rightarrow> Inl e
      | Inr df2 \<Rightarrow>
     (case add_normalised_column df2 ''Pressure Change'' ''Moisture content %''
             ''Normalised moisture content per RH step'' of
        Inl e \<Rightarrow> Inl e
      | Inr df3 \<Rightarrow> drop_column df3 ''Pressure Change'')))"

definition add_direction_change_columns :: "dataframe \<Rightarrow> error + dataframe" where
  "add_direction_change_columns df =
     (case add_change_column df ''RH Direction'' ''Direction Change'' of
        Inl e \<Rightarrow> Inl e
      | Inr df1 \<Rightarrow>
     (case add_normalised_column df1 ''Direction Change'' ''Time [minutes]''
             ''Normalised time (up vs down RH ramps)'' of
        Inl e \<Rightarrow> Inl e
      | Inr df2 \<Rightarrow> drop_column df2 ''Direction Change''))"

definition calculate_and_add_columns :: "dataframe \<Rightarrow> string \<Rightarrow> error + dataframe" where
  "calculate_and_add_columns df pressure_solvent_column =
     (case add_pressure_change_columns df pressure_solvent_column of
        Inl e \<Rightarrow> Inl e
      | Inr df1 \<Rightarrow> add_direction_change_columns df1)"

text \<open>\<open>re.match(r"^Sheet\d+$", sheet)\<close>: \<open>$\<close> also matches before one final newline.\<close>

definition is_digit :: "char \<Rightarrow> bool" where
  "is_digit c = (CHR ''0'' \<le> c \<and> c \<le> CHR ''9'')"

definition match_sheet_digits :: "string \<Rightarrow> bool" where
  "match_sheet_digits sheet =
     (take 5 sheet = ''Sheet'' \<and> takeWhile is_digit (drop 5 sheet) \<noteq> [] \<and>
      (dropWhile is_digit (drop 5 sheet) = [] \<or>
       dropWhile is_digit (drop 5 sheet) = [CHR 0x0A]))"

text \<open>
  \<open>str.strip()\<close>: the characters that Python counts as whitespace, among the 256
  characters of a \<open>string\<close> here, by their code points.
\<close>

definition is_space :: "char \<Rightarrow> bool" where
  "is_space c = ((of_char c :: nat) \<in> {9, 10, 11, 12, 13, 28, 29, 30, 31, 32, 133, 160})"

definition strip :: "string \<Rightarrow> string" where
  "strip s = rev (dropWhile is_space (rev (dropWhile is_space s)))"

text \<open>
  What a run of process\_spreadsheet leaves behind: the sheets handed to the destination
  workbook, in order, the lines logged, and whether the workbook was closed.
\<close>

record run_state =
  sheets :: "(string \<times> dataframe) list"
  logged :: "string list"
  closed :: bool

definition log_line :: "string \<Rightarrow> run_state \<Rightarrow> run_state" where
  "log_line l st = st\<lparr>logged := logged st @ [l]\<rparr>"

definition to_excel :: "string \<Rightarrow> dataframe \<Rightarrow> run_state \<Rightarrow> run_state" where
  "to_excel sheet df st = st\<lparr>sheets := sheets st @ [(sheet, df)]\<rparr>"

text \<open>
  The loop of process\_spreadsheet over the sheets of the source workbook.
  \<open>pd.to_numeric(errors="ignore")\<close>, which parses the text of a column, is the
  parameter \<open>to_numeric\<close>. An exception of the column arithmetic ends the loop.
\<close>

fun process_sheets ::
  "(series \<Rightarrow> series) \<Rightarrow> (string \<times> dataframe) list \<Rightarrow> run_state \<Rightarrow> error + run_state" where
  "process_sheets to_numeric [] st = Inr st"
| "process_sheets to_numeric ((sheet, df0) # rest) st =
     (if match_sheet_digits sheet
      then process_sheets to_numeric rest (log_line (''Skipping '' @ sheet @ [CHR 0x0A]) st)
      else
        (let st1 = log_line (''Processing '' @ sheet) st;
             df = map (\<lambda>(c, s). (strip c, s)) df0;
             pressure_solvent_column = solvent_a_or_b df
         in case check_for_needed_columns df pressure_solvent_column of
              Inl e \<Rightarrow> Inl e
            | Inr (ok, errors) \<Rightarrow>
                if \<not> ok
                then process_sheets to_numeric rest
                       (log_line (''Skipping '' @ sheet @ '' because of missing column'' @ [CHR 0x0A])
                          (st1\<lparr>logged := logged st1 @ errors\<rparr>))
                else
                  (case calculate_and_add_columns (map (\<lambda>(c, s). (c, to_numeric s)) df)
                          pressure_solvent_column of
                     Inl e \<Rightarrow> Inl e
                   | Inr df' \<Rightarrow> process_sheets to_numeric rest (to_excel sheet df' st1))))"

text \<open>The destination workbook is closed, and with that saved, when it holds a sheet.\<close>

definition process_spreadsheet ::
  "(series \<Rightarrow> series) \<Rightarrow> (string \<times> dataframe) list \<Rightarrow> error + run_state" where
  "process_spreadsheet to_numeric src_workbook =
     (case process_sheets to_numeric src_workbook \<lparr>sheets = [], logged = [], closed = False\<rparr> of
        Inl e \<Rightarrow> Inl e
      | Inr st \<Rightarrow> Inr (if sheets st \<noteq> [] then st\<lparr>closed := True\<rparr> else st))"


text \<open>
  The run ids as one pass over the column: the running count and the previous value are
  carried along. It is the loop that \<open>change_ids\<close> computes with shift, comparison and
  running sum, and is used to reason about it.
\<close>

fun ids_from :: "int \<Rightarrow> cell \<Rightarrow> series \<Rightarrow> int list" where
  "ids_from acc p [] = []"
| "ids_from acc p (c # cs) =
     (acc + (if ne_cell c p then 1 else 0)) #
       ids_from (acc + (if ne_cell c p then 1 else 0)) c cs"





section \<open>Measurements of the image pipeline (mask\_area.py)\<close>

text \<open>
  A mask read by \<open>cv2.imread(path, 0)\<close>: the rows of 8-bit grey values, or nothing when the
  file cannot be read; \<open>cv2.countNonZero\<close> then counts no pixel.
\<close>

type_synonym image = "8 word list list"

definition countNonZero :: "image option \<Rightarrow> nat" where
  "countNonZero read_image =
     (case read_image of
        None \<Rightarrow> 0
      | Some img \<Rightarrow> length (filter (\<lambda>p. p \<noteq> 0) (concat img)))"

text \<open>
  The literal \<open>4.92843e-05\<close> is the float64 nearest to that decimal number; the count
  and \<open>1000\<close> are converted to float64, and each product is rounded.
\<close>

definition get_mask_area :: "image option \<Rightarrow> real" where
  "get_mask_area read_image =
     (let num_of_pixels = countNonZero read_image;
          area_of_pixel = round64 (4.92843 / 10 ^ 5);
          mask_area = fmul area_of_pixel (round64 (real num_of_pixels));
          mask_area_microns = fmul mask_area (round64 1000)
      in mask_area_microns)"

text \<open>
  \<open>math.sqrt\<close> raises ValueError on a negative number. The diameter is the exact
  real number here; its rounding to float64 is not modelled.
\<close>

definition get_diameter_from_area :: "real \<Rightarrow> error + real" where
  "get_diameter_from_area area =
     (if area / pi < 0 then Inl ValueError
      else (let radius = sqrt (area / pi); diameter = radius * 2 in Inr diameter))"

text \<open>A row of images\_df, and a row of the table that is written as CSV.\<close>

record image_data =
  Grid :: string
  Mask :: int
  Area :: real

record measurement = image_data +
  Diameter :: real
  Freq :: int
  Cumulative_Freq :: int
  Percentage_of_Particle :: "real option"

text \<open>\<open>sorted_df["Area"].apply(get_diameter_from_area)\<close>: the first exception ends it.\<close>

fun apply_diameter :: "real list \<Rightarrow> error + real list" where
  "apply_diameter [] = Inr []"
| "apply_diameter (a # as) =
     (case get_diameter_from_area a of
        Inl e \<Rightarrow> Inl e
      | Inr d \<Rightarrow> (case apply_diameter as of Inl e \<Rightarrow> Inl e | Inr ds \<Rightarrow> Inr (d # ds)))"

text \<open>\<open>s.value_counts()\<close>, looked up at a value: how many rows hold it.\<close>

definition value_counts :: "real list \<Rightarrow> real \<Rightarrow> int" where
  "value_counts s d = int (length (filter (\<lambda>x. x = d) s))"

text \<open>
  update\_and\_save\_dataframe; the result is the table handed to \<open>to_csv\<close>. The sort
  \<open>images_df.sort_values(by=sort_by)\<close> is pandas code and is the parameter
  \<open>sort_values\<close>. The percentage column exists only with calculate\_percent; the row
  index plus one and the number of rows are converted to float64, divided, and the
  quotient is multiplied by 100, each result rounded.
\<close>

definition update_and_save_dataframe ::
  "(string list \<Rightarrow> image_data list \<Rightarrow> error + image_data list) \<Rightarrow>
   image_data list \<Rightarrow> string list \<Rightarrow> bool \<Rightarrow> error + measurement list" where
  "update_and_save_dataframe sort_values images_df sort_by calculate_percent =
     (case sort_values sort_by images_df of
        Inl e \<Rightarrow> Inl e
      | Inr sorted_df \<Rightarrow>
     (case apply_diameter (map Area sorted_df) of
        Inl e \<Rightarrow> Inl e
      | Inr diameter \<Rightarrow>
          (let freq = map (value_counts diameter) diameter;
               cumulative_freq = cumsum freq;
               n = length sorted_df;
               percentage =
                 (if calculate_percent
                  then map (\<lambda>index. Some (fmul (fdiv (round64 (real (index + 1)))
                                                   (round64 (real n))) (round64 100))) [0..<n]
                  else replicate n None)
           in Inr (map (\<lambda>k. \<lparr>Grid = Grid (sorted_df ! k), Mask = Mask (sorted_df ! k),
                               Area = Area (sorted_df ! k), Diameter = diameter ! k,
                               Freq = freq ! k, Cumulative_Freq = cumulative_freq ! k,
                               Percentage_of_Particle = percentage ! k\<rparr>) [0..<n]))))"

subsection \<open>Sorting by the columns of sort\_by\<close>

text \<open>The values of the columns of images\_df, ordered within each column as Python orders them.\<close>

datatype val = StrV string | IntV int | RealV real

instantiation val :: linorder
begin

fun less_eq_val :: "val \<Rightarrow> val \<Rightarrow> bool" where
  "less_eq_val (StrV a) (StrV b) = (a \<le> b)"
| "less_eq_val (StrV a) (IntV b) = True"
| "less_eq_val (StrV a) (RealV b) = True"
| "less_eq_val (IntV a) (StrV b) = False"
| "less_eq_val (IntV a) (IntV b) = (a \<le> b)"
| "less_eq_val (IntV a) (RealV b) = True"
| "less_eq_val (RealV a) (StrV b) = False"
| "less_eq_val (RealV a) (IntV b) = False"
| "less_eq_val (RealV a) (RealV b) = (a \<le> b)"

definition less_val :: "val \<Rightarrow> val \<Rightarrow> bool" where
  "less_val x y = (x \<le> y \<and> \<not> y \<le> x)"

instance
proof
  fix x y z :: val
  show "(x < y) = (x \<le> y \<and> \<not> y \<le> x)" by (simp add: less_val_def)
  show "x \<le> x" by (cases x) simp_all
  show "x \<le> y \<Longrightarrow> y \<le> z \<Longrightarrow> x \<le> z" by (cases x; cases y; cases z) simp_all
  show "x \<le> y \<Longrightarrow> y \<le> x \<Longrightarrow> x = y" by (cases x; cases y) simp_all
  show "x \<le> y \<or> y \<le> x" by (cases x; cases y) auto
qed

end

definition image_columns :: "string list" where
  "image_columns = [''Grid'', ''Mask'', ''Area'']"

definition column_value :: "string \<Rightarrow> image_data \<Rightarrow> val" where
  "column_value c r =
     (if c = ''Grid'' then StrV (Grid r) else if c = ''Mask'' then IntV (Mask r)
      else RealV (Area r))"

text \<open>The sort key of a row: its values in the columns of sort\_by, compared left to right.\<close>

definition key_of :: "string list \<Rightarrow> image_data \<Rightarrow> val list" where
  "key_of sort_by r = map (\<lambda>c. column_value c r) sort_by"

text \<open>
  A sort by which the tables of the examples are sorted: the rows are inserted one by
  one, by their keys. A table without rows has no columns, and a name in sort\_by that is
  no column is a KeyError.
\<close>

definition sort_values_stable :: "string list \<Rightarrow> image_data list \<Rightarrow> error + image_data list" where
  "sort_values_stable sort_by df =
     (if df = [] \<or> \<not> set sort_by \<subseteq> set image_columns then Inl KeyError
      else Inr (sort_key (key_of sort_by) df))"


section \<open>Properties of the rounding\<close>

lemma round_half_even_of_int: "round_half_even (of_int z) = z"
  by (simp add: round_half_even_def)

lemma round_half_even_error: "\<bar>of_int (round_half_even q) - q\<bar> \<le> 1 / 2"
  unfolding round_half_even_def by (auto simp: abs_le_iff)

lemma ulp_exponent_eq:
  assumes "2 powr (of_int e + 52) \<le> \<bar>r\<bar>" "\<bar>r\<bar> < 2 powr (of_int e + 53)" "- 1074 \<le> e"
  shows "ulp_exponent r = e"
proof -
  have pos: "0 < \<bar>r\<bar>" using assms(1) by (smt (verit) powr_gt_zero)
  have "\<lfloor>log 2 \<bar>r\<bar>\<rfloor> = e + 52"
    using assms(1,2) by (subst floor_log_eq_powr_iff [OF pos]) (simp_all add: add.commute add.assoc)
  then show ?thesis using assms(3) by (simp add: ulp_exponent_def)
qed

lemma round64_eval:
  assumes "2 ^ 52 \<le> \<bar>r\<bar> * 2 ^ n" "\<bar>r\<bar> * 2 ^ n < 2 ^ 53" "n \<le> 1074"
  shows "round64 r = of_int (round_half_even (r * 2 ^ n)) / 2 ^ n"
proof -
  have p: "2 powr (- real n) = 1 / 2 ^ n"
    by (simp add: powr_minus powr_realpow divide_inverse)
  have p52: "2 powr (52 - real n) = 2 ^ 52 / 2 ^ n"
    by (simp add: powr_diff powr_realpow)
  have p53: "2 powr (53 - real n) = 2 ^ 53 / 2 ^ n"
    by (simp add: powr_diff powr_realpow)
  have "2 ^ 52 / 2 ^ n \<le> \<bar>r\<bar>"
    using assms(1) by (simp add: field_simps)
  then have a: "2 powr (of_int (- int n) + 52) \<le> \<bar>r\<bar>"
    using p52 by (simp add: algebra_simps)
  have "\<bar>r\<bar> < 2 ^ 53 / 2 ^ n"
    using assms(2) by (simp add: field_simps)
  then have b: "\<bar>r\<bar> < 2 powr (of_int (- int n) + 53)"
    using p53 by (simp add: algebra_simps)
  have e: "ulp_exponent r = - int n"
    using a b assms(3) by (intro ulp_exponent_eq) simp_all
  have "r \<noteq> 0" using assms(1) by auto
  then show ?thesis by (simp add: round64_def e p)
qed

lemma round64_0: "round64 0 = 0"
  by (simp add: round64_def)

lemma round64_of_int:
  assumes "\<bar>k\<bar> < 2 ^ 53"
  shows "round64 (of_int k) = of_int k"
proof (cases "k = 0")
  case True
  then show ?thesis by (simp add: round64_def)
next
  case False
  let ?r = "of_int k :: real"
  let ?e = "ulp_exponent ?r"
  have pos: "0 < \<bar>?r\<bar>" using False by simp
  have "\<bar>?r\<bar> < 2 powr 53" using assms
    by (metis of_int_abs of_int_less_numeral_power_cancel_iff powr_realpow' zero_less_numeral
        numeral_powr_numeral_real of_int_numeral of_int_power of_int_less_iff)
  then have "log 2 \<bar>?r\<bar> < 53"
    using pos by (simp add: log_less_iff)
  then have "\<lfloor>log 2 \<bar>?r\<bar>\<rfloor> \<le> 52" by linarith
  then have le: "?e \<le> 0" and ge: "- 1074 \<le> ?e" by (simp_all add: ulp_exponent_def)
  define n where "n = nat (- ?e)"
  have en: "?e = - int n" using le by (simp add: n_def)
  have p: "2 powr of_int ?e = (1 / 2 ^ n :: real)"
    by (simp add: en powr_minus powr_realpow divide_inverse)
  have "?r / 2 powr of_int ?e = of_int (k * 2 ^ n)" by (simp add: p)
  then have "round_half_even (?r / 2 powr of_int ?e) = k * 2 ^ n"
    by (simp only: round_half_even_of_int)
  then show ?thesis using False by (simp add: round64_def p)
qed

lemma round64_error:
  assumes "\<bar>x\<bar> < 2 powr of_int k" "- 1021 \<le> k"
  shows "\<bar>round64 x - x\<bar> \<le> 2 powr (of_int k - 54)"
proof (cases "x = 0")
  case True
  then show ?thesis by (simp add: round64_def)
next
  case False
  let ?e = "ulp_exponent x"
  have pos: "0 < \<bar>x\<bar>" using False by simp
  have "log 2 \<bar>x\<bar> < of_int k"
    using assms(1) pos by (simp add: log_less_iff)
  then have "\<lfloor>log 2 \<bar>x\<bar>\<rfloor> \<le> k - 1" by linarith
  then have e: "?e \<le> k - 53" using assms(2) by (simp add: ulp_exponent_def)
  let ?p = "2 powr of_int ?e :: real"
  have pp: "0 < ?p" by simp
  let ?m = "of_int (round_half_even (x / ?p)) :: real"
  have r: "round64 x = ?m * ?p" using False by (simp add: round64_def)
  have "\<bar>?m * ?p - x\<bar> = \<bar>?m - x / ?p\<bar> * ?p"
  proof -
    have "?m * ?p - x = (?m - x / ?p) * ?p" using pp by (simp add: field_simps)
    then show ?thesis using pp by (simp add: abs_mult)
  qed
  also have "\<dots> \<le> (1 / 2) * ?p"
    using round_half_even_error [of "x / ?p"] pp by (intro mult_right_mono) simp_all
  also have "\<dots> = 2 powr (of_int ?e - 1)"
    by (simp add: powr_diff)
  also have "\<dots> \<le> 2 powr (of_int k - 54)"
  proof -
    have "real_of_int ?e \<le> real_of_int (k - 53)" using e by (simp only: of_int_le_iff)
    then show ?thesis by (intro powr_mono) simp_all
  qed
  finally show ?thesis by (simp add: r)
qed

text \<open>Whole numbers below \<open>2 ^ 53\<close> are float64 numbers, and so is the quotient of a number by itself.\<close>

lemma round64_numeral: "numeral n < (2::int) ^ 53 \<Longrightarrow> round64 (numeral n) = numeral n"
  using round64_of_int [of "numeral n"] by simp

lemma round64_1: "round64 1 = 1"
  using round64_of_int [of 1] by simp

lemma round64_of_nat:
  assumes "n < 2 ^ 53"
  shows "round64 (real n) = real n"
proof -
  have "int n < 2 ^ 53" using assms by (metis of_nat_less_iff of_nat_numeral of_nat_power)
  hence "\<bar>int n\<bar> < 2 ^ 53" by (simp only: abs_of_nat)
  hence "round64 (of_int (int n)) = of_int (int n)" by (rule round64_of_int)
  thus ?thesis by (simp only: of_int_of_nat_eq)
qed

lemma fdiv_same: "x \<noteq> 0 \<Longrightarrow> fdiv x x = 1"
  by (simp add: fdiv_def round64_1)

text \<open>The rounding error below 2 and below 256.\<close>

lemma round64_error_2: "\<bar>x\<bar> < 2 \<Longrightarrow> \<bar>round64 x - x\<bar> \<le> 1 / 2 ^ 53"
proof -
  assume a: "\<bar>x\<bar> < 2"
  have b: "(2::real) powr of_int 1 = 2" by simp
  have "of_int 1 - 54 = (- 53::real)" by simp
  moreover have "(2::real) powr (- 53) = 1 / 2 powr 53" by (rule powr_minus_divide)
  moreover have "(2::real) powr 53 = 2 ^ 53" by simp
  ultimately have c: "(2::real) powr (of_int 1 - 54) = 1 / 2 ^ 53" by (simp only:)
  have "\<bar>x\<bar> < 2 powr of_int 1" using a by (simp only: b)
  hence "\<bar>round64 x - x\<bar> \<le> 2 powr (of_int 1 - 54)" by (rule round64_error) simp
  thus ?thesis by (simp only: c)
qed

lemma round64_error_256: "\<bar>x\<bar> < 256 \<Longrightarrow> \<bar>round64 x - x\<bar> \<le> 1 / 2 ^ 46"
proof -
  assume a: "\<bar>x\<bar> < 256"
  have b: "(2::real) powr of_int 8 = 256" by simp
  have "of_int 8 - 54 = (- 46::real)" by simp
  moreover have "(2::real) powr (- 46) = 1 / 2 powr 46" by (rule powr_minus_divide)
  moreover have "(2::real) powr 46 = 2 ^ 46" by simp
  ultimately have c: "(2::real) powr (of_int 8 - 54) = 1 / 2 ^ 46" by (simp only:)
  have "\<bar>x\<bar> < 2 powr of_int 8" using a by (simp only: b)
  hence "\<bar>round64 x - x\<bar> \<le> 2 powr (of_int 8 - 54)" by (rule round64_error) simp
  thus ?thesis by (simp only: c)
qed


section \<open>Properties of the spreadsheet pipeline\<close>

subsection \<open>Columns of a table\<close>

lemma ne_cell_NaN_right: "ne_cell a NaN"
  by (cases a) simp_all

lemma map_of_setitem_same: "map_of (setitem df c s) c = Some s"
proof (cases "c \<in> set (columns df)")
  case True
  then have "map_of (map (\<lambda>(c', v). if c' = c then (c', s) else (c', v)) df) c = Some s"
    by (induction df) (auto simp: columns_def)
  with True show ?thesis by (simp add: setitem_def)
next
  case False
  then have "map_of df c = None"
    by (simp add: columns_def map_of_eq_None_iff)
  with False show ?thesis by (simp add: setitem_def map_add_def)
qed

lemma map_of_setitem_other: "c' \<noteq> c \<Longrightarrow> map_of (setitem df c s) c' = map_of df c'"
proof -
  assume ne: "c' \<noteq> c"
  have "map_of (map (\<lambda>(d, v). if d = c then (d, s) else (d, v)) df) c' = map_of df c'"
    using ne by (induction df) auto
  then show ?thesis using ne by (simp add: setitem_def map_add_def split: option.splits)
qed

lemma getitem_setitem_same: "getitem (setitem df c s) c = Inr s"
  by (simp add: getitem_def map_of_setitem_same)

lemma getitem_setitem_other: "c' \<noteq> c \<Longrightarrow> getitem (setitem df c s) c' = getitem df c'"
  by (simp add: getitem_def map_of_setitem_other)

lemma getitem_drop_other:
  "drop_column df c = Inr df' \<Longrightarrow> c' \<noteq> c \<Longrightarrow> getitem df' c' = getitem df c'"
proof -
  assume a: "drop_column df c = Inr df'" and ne: "c' \<noteq> c"
  have "map_of (filter (\<lambda>(d, v). d \<noteq> c) df) c' = map_of df c'"
    using ne by (induction df) auto
  with a show ?thesis by (auto simp: drop_column_def getitem_def split: if_splits)
qed


subsection \<open>Run ids, groups and subtraction\<close>

lemma cumsum_ids_from:
  "cumsum_from acc (map (\<lambda>b. if b then 1 else 0) (map2 ne_cell (c # cs) (p # butlast (c # cs))))
     = ids_from acc p (c # cs)"
proof (induction cs arbitrary: acc p c)
  case Nil
  show ?case by simp
next
  case (Cons d ds)
  have "butlast (c # d # ds) = c # butlast (d # ds)" by simp
  then show ?case using Cons.IH [of _ d c] by simp
qed

lemma change_ids_ids_from: "change_ids s = ids_from 0 NaN s"
proof (cases s)
  case Nil
  then show ?thesis
    by (simp add: change_ids_def cumsum_bool_def cumsum_def ne_series_def shift_def)
next
  case (Cons c cs)
  then show ?thesis
    using cumsum_ids_from [of 0 c cs NaN]
    by (simp add: change_ids_def cumsum_bool_def cumsum_def ne_series_def shift_def)
qed

lemma length_ids_from: "length (ids_from acc p s) = length s"
  by (induction s arbitrary: acc p) simp_all

lemma ids_from_step:
  "Suc i < length s \<Longrightarrow>
   ids_from acc p s ! Suc i = ids_from acc p s ! i + (if ne_cell (s ! Suc i) (s ! i) then 1 else 0)"
proof (induction s arbitrary: acc p i)
  case Nil
  then show ?case by simp
next
  case (Cons c cs)
  show ?case
  proof (cases i)
    case 0
    with Cons.prems obtain d ds where "cs = d # ds" by (cases cs) auto
    with 0 show ?thesis by simp
  next
    case (Suc j)
    with Cons.prems have "Suc j < length cs" by simp
    from Cons.IH [OF this] Suc show ?thesis by simp
  qed
qed

lemma length_change_ids: "length (change_ids s) = length s"
  by (simp add: change_ids_ids_from length_ids_from)

lemma change_ids_first: "s \<noteq> [] \<Longrightarrow> change_ids s ! 0 = 1"
  by (cases s) (simp_all add: change_ids_ids_from ne_cell_NaN_right)

lemma change_ids_step:
  "Suc i < length s \<Longrightarrow>
   change_ids s ! Suc i = change_ids s ! i + (if ne_cell (s ! Suc i) (s ! i) then 1 else 0)"
  by (simp add: change_ids_ids_from ids_from_step)

lemma sorted_change_ids: "sorted (change_ids s)"
  by (simp add: sorted_iff_nth_Suc length_change_ids change_ids_step)

lemma ids_from_again:
  "ids_from acc (Num (of_int acc)) (int_series (ids_from acc p s)) = ids_from acc p s"
  by (induction s arbitrary: acc p) (simp_all add: int_series_def del: of_int_add)

lemma change_ids_idem: "change_ids (int_series (change_ids s)) = change_ids s"
proof (cases s)
  case Nil
  then show ?thesis by (simp add: change_ids_ids_from int_series_def)
next
  case (Cons c cs)
  have "ids_from 1 (Num (of_int 1)) (int_series (ids_from 1 c cs)) = ids_from 1 c cs"
    by (rule ids_from_again)
  with Cons show ?thesis
    by (simp add: change_ids_ids_from ne_cell_NaN_right int_series_def)
qed


lemma sub_series_length: "sub_series as bs = Inr d \<Longrightarrow> length d = min (length as) (length bs)"
proof (induction as bs arbitrary: d rule: sub_series.induct)
  case (1 a as b bs)
  then show ?case by (auto split: sum.splits)
qed simp_all

lemma sub_series_nth:
  "sub_series as bs = Inr d \<Longrightarrow> i < length d \<Longrightarrow> sub_cell (as ! i) (bs ! i) = Inr (d ! i)"
proof (induction as bs arbitrary: d i rule: sub_series.induct)
  case (1 a as b bs)
  then show ?case by (cases i) (auto split: sum.splits)
qed simp_all

lemma length_groupby_transform_first: "length (groupby_transform_first keys vals) = length keys"
  by (simp add: groupby_transform_first_def)

lemma groupby_transform_first_nth:
  "i < length keys \<Longrightarrow> keys ! i \<noteq> NaN \<Longrightarrow>
   groupby_transform_first keys vals ! i =
     first_valid (map snd (filter (\<lambda>(k', v). k' = keys ! i) (zip keys vals)))"
  by (simp add: groupby_transform_first_def)

lemma group_first_at_start:
  assumes "i < length keys" "i < length vals" "\<forall>j<i. keys ! j \<noteq> keys ! i" "vals ! i \<noteq> NaN"
  shows "first_valid (map snd (filter (\<lambda>(k', v). k' = keys ! i) (zip keys vals))) = vals ! i"
proof -
  let ?z = "zip keys vals"
  have len: "i < length ?z" using assms by simp
  have split: "?z = take i ?z @ ?z ! i # drop (Suc i) ?z"
    using len by (rule id_take_nth_drop)
  have "\<forall>x \<in> set (take i ?z). fst x \<noteq> keys ! i"
  proof
    fix x assume "x \<in> set (take i ?z)"
    then obtain j where j: "j < length (take i ?z)" "take i ?z ! j = x"
      by (auto simp: in_set_conv_nth)
    then have "j < i" "x = (keys ! j, vals ! j)" using assms(1,2) by auto
    with assms(3) show "fst x \<noteq> keys ! i" by simp
  qed
  then have none: "filter (\<lambda>(k', v). k' = keys ! i) (take i ?z) = []"
    by (auto simp: filter_empty_conv)
  have "filter (\<lambda>(k', v). k' = keys ! i) ?z =
          (keys ! i, vals ! i) # filter (\<lambda>(k', v). k' = keys ! i) (drop (Suc i) ?z)"
    using assms(1,2) by (subst split) (simp add: none)
  then show ?thesis using assms(4) by simp
qed




lemma change_ids_before_run_start:
  assumes "i < length s" "i = 0 \<or> change_ids s ! (i - 1) \<noteq> change_ids s ! i" "j < i"
  shows "change_ids s ! j < change_ids s ! i"
proof -
  from assms obtain i' where i': "i = Suc i'" by (cases i) auto
  have "change_ids s ! j \<le> change_ids s ! i'"
    using sorted_change_ids [of s] assms(1,3) i'
    by (auto simp: sorted_iff_nth_mono length_change_ids)
  moreover have "change_ids s ! i' \<le> change_ids s ! i"
    using sorted_change_ids [of s] assms(1) i'
    by (auto simp: sorted_iff_nth_mono length_change_ids)
  moreover have "change_ids s ! i' \<noteq> change_ids s ! i" using assms(2) i' by simp
  ultimately show ?thesis by linarith
qed

lemma add_normalised_column_result:
  assumes "getitem df g = Inr keys" "getitem df t = Inr vals"
    and "add_normalised_column df g t n = Inr df2"
    and "n @ '' NEW'' \<noteq> t @ ''_at_change''"
  shows "\<exists>d. sub_series vals (groupby_transform_first keys vals) = Inr d \<and>
             getitem df2 (n @ '' NEW'') = Inr d"
proof -
  let ?tmp = "t @ ''_at_change''"
  let ?df1 = "setitem df ?tmp (groupby_transform_first keys vals)"
  have t1: "getitem ?df1 t = Inr vals"
    using assms(2) by (simp add: getitem_setitem_other)
  have t2: "getitem ?df1 ?tmp = Inr (groupby_transform_first keys vals)"
    by (rule getitem_setitem_same)
  from assms(1,2,3) t1 t2 obtain d where
    d: "sub_series vals (groupby_transform_first keys vals) = Inr d"
    and dr: "drop_column (setitem ?df1 (n @ '' NEW'') d) ?tmp = Inr df2"
    by (auto simp: add_normalised_column_def Let_def split: sum.splits)
  have "getitem df2 (n @ '' NEW'') = getitem (setitem ?df1 (n @ '' NEW'') d) (n @ '' NEW'')"
    using dr assms(4) by (rule getitem_drop_other)
  then show ?thesis using d by (simp add: getitem_setitem_same)
qed

lemma int_series_nth: "i < length ks \<Longrightarrow> int_series ks ! i = Num (of_int (ks ! i))"
  by (simp add: int_series_def)

lemma length_int_series: "length (int_series ks) = length ks"
  by (simp add: int_series_def)


subsection \<open>The columns written by add\_change\_column and add\_normalised\_column\<close>

lemmas eval_defs = add_change_column_def add_normalised_column_def getitem_def setitem_def
  drop_column_def columns_def change_ids_def cumsum_bool_def cumsum_def ne_series_def
  shift_def int_series_def groupby_transform_first_def Let_def

lemma add_change_column_column:
  "getitem df t = Inr s \<Longrightarrow> add_change_column df t n = Inr df' \<Longrightarrow>
   getitem df' n = Inr (int_series (change_ids s))"
  by (auto simp: add_change_column_def getitem_setitem_same)

text \<open>
  Claim C2. The run ids that add\_change\_column writes for a column have the length of
  the column, start at 1, never decrease and grow by 0 or 1 from a row to the next. The
  values A, A, B, A give the run ids 1, 1, 2, 3 and an empty column gives an empty one.
\<close>

theorem add_change_column_run_ids:
  assumes "getitem df target_column = Inr s"
  shows "(\<exists>df'. add_change_column df target_column new_column_name = Inr df' \<and>
                getitem df' new_column_name = Inr (int_series (change_ids s))) \<and>
         length (change_ids s) = length s \<and>
         (s \<noteq> [] \<longrightarrow> change_ids s ! 0 = 1) \<and>
         sorted (change_ids s) \<and>
         (\<forall>i. Suc i < length s \<longrightarrow>
              change_ids s ! Suc i = change_ids s ! i \<or>
              change_ids s ! Suc i = change_ids s ! i + 1) \<and>
         add_change_column [(''v'', [Str ''A'', Str ''A'', Str ''B'', Str ''A''])] ''v'' ''run'' =
           Inr [(''v'', [Str ''A'', Str ''A'', Str ''B'', Str ''A'']),
                (''run'', [Num 1, Num 1, Num 2, Num 3])] \<and>
         add_change_column [(''v'', [])] ''v'' ''run'' = Inr [(''v'', []), (''run'', [])]"
proof -
  have "\<exists>df'. add_change_column df target_column new_column_name = Inr df' \<and>
              getitem df' new_column_name = Inr (int_series (change_ids s))"
    using assms by (simp add: add_change_column_def getitem_setitem_same)
  moreover have "\<forall>i. Suc i < length s \<longrightarrow>
              change_ids s ! Suc i = change_ids s ! i \<or>
              change_ids s ! Suc i = change_ids s ! i + 1"
    by (simp add: change_ids_step)
  moreover have "add_change_column [(''v'', [Str ''A'', Str ''A'', Str ''B'', Str ''A''])] ''v'' ''run'' =
           Inr [(''v'', [Str ''A'', Str ''A'', Str ''B'', Str ''A'']),
                (''run'', [Num 1, Num 1, Num 2, Num 3])]"
    by (simp add: eval_defs)
  moreover have "add_change_column [(''v'', [])] ''v'' ''run'' = Inr [(''v'', []), (''run'', [])]"
    by (simp add: eval_defs)
  ultimately show ?thesis
    using length_change_ids [of s] sorted_change_ids [of s] change_ids_first [of s] by blast
qed

text \<open>The statement of C2 at a pressure column of three rows.\<close>

theorem add_change_column_run_ids_witness:
  "getitem [(''p'', [Num 0, Num 0, Num 10])] ''p'' = Inr [Num 0, Num 0, Num 10] \<and>
   [Num 0, Num 0, Num 10] \<noteq> [] \<and> Suc 1 < length [Num 0, Num 0, Num 10] \<and>
   change_ids [Num 0, Num 0, Num 10] ! 0 = 1 \<and>
   (change_ids [Num 0, Num 0, Num 10] ! Suc 1 = change_ids [Num 0, Num 0, Num 10] ! 1 \<or>
    change_ids [Num 0, Num 0, Num 10] ! Suc 1 = change_ids [Num 0, Num 0, Num 10] ! 1 + 1)"
proof -
  have h: "getitem [(''p'', [Num 0, Num 0, Num 10])] ''p'' = Inr [Num 0, Num 0, Num 10]"
    by (simp add: getitem_def)
  show ?thesis
    using h add_change_column_run_ids [OF h, of "''run''"] by simp
qed

text \<open>
  Claim C4. Two missing values compare as unequal, and the run id grows by one at every
  row that holds a missing value or follows one.
\<close>

theorem missing_values_start_new_runs:
  assumes "getitem df target_column = Inr s"
    and "add_change_column df target_column new_column_name = Inr df'"
  shows "ne_cell NaN NaN \<and>
         getitem df' new_column_name = Inr (int_series (change_ids s)) \<and>
         (\<forall>i. Suc i < length s \<and> (s ! Suc i = NaN \<or> s ! i = NaN) \<longrightarrow>
              change_ids s ! Suc i = change_ids s ! i + 1)"
  using assms add_change_column_column [OF assms]
  by (auto simp: change_ids_step ne_cell_NaN_right)

text \<open>The statement of C4 at a column with two missing values in a row.\<close>

theorem missing_values_start_new_runs_witness:
  "getitem [(''p'', [Num 7, NaN, NaN])] ''p'' = Inr [Num 7, NaN, NaN] \<and>
   add_change_column [(''p'', [Num 7, NaN, NaN])] ''p'' ''run'' =
     Inr [(''p'', [Num 7, NaN, NaN]), (''run'', [Num 1, Num 2, Num 3])] \<and>
   Suc 1 < length [Num 7, NaN, NaN] \<and> [Num 7, NaN, NaN] ! Suc 1 = NaN \<and>
   change_ids [Num 7, NaN, NaN] ! Suc 1 = change_ids [Num 7, NaN, NaN] ! 1 + 1"
proof -
  have h1: "getitem [(''p'', [Num 7, NaN, NaN])] ''p'' = Inr [Num 7, NaN, NaN]"
    by (simp add: getitem_def)
  have h2: "add_change_column [(''p'', [Num 7, NaN, NaN])] ''p'' ''run'' =
     Inr [(''p'', [Num 7, NaN, NaN]), (''run'', [Num 1, Num 2, Num 3])]"
    by (simp add: eval_defs)
  show ?thesis
    using h1 h2 missing_values_start_new_runs [OF h1 h2] by simp
qed

lemma change_ids_le: "i < length s \<Longrightarrow> change_ids s ! i \<le> int i + 1"
proof (induction i)
  case 0
  then show ?case by (cases s) (simp_all add: change_ids_first)
next
  case (Suc i)
  then show ?case using change_ids_step [of i s] by (auto split: if_splits)
qed

lemma change_ids_full_iff:
  "i < length s \<Longrightarrow>
   change_ids s ! i = int i + 1 \<longleftrightarrow> (\<forall>j<i. ne_cell (s ! Suc j) (s ! j))"
proof (induction i)
  case 0
  then show ?case by (cases s) (simp_all add: change_ids_first)
next
  case (Suc i)
  then have i: "i < length s" by simp
  have le: "change_ids s ! i \<le> int i + 1" using i by (rule change_ids_le)
  have step: "change_ids s ! Suc i =
      change_ids s ! i + (if ne_cell (s ! Suc i) (s ! i) then 1 else 0)"
    using Suc.prems by (rule change_ids_step)
  have "change_ids s ! Suc i = int (Suc i) + 1 \<longleftrightarrow>
        change_ids s ! i = int i + 1 \<and> ne_cell (s ! Suc i) (s ! i)"
    using le step by (auto split: if_splits)
  then show ?case using Suc.IH [OF i] by (auto simp: less_Suc_eq)
qed

text \<open>
  Claim C5, as amended. Detecting changes in the run ids themselves gives the same run
  ids again: the number of runs stays what it was, and it is the number of rows only when
  every row compares unequal to the row before it.
\<close>

theorem add_change_column_again_same_ids:
  assumes "getitem df target_column = Inr s"
    and "add_change_column df target_column run = Inr df1"
    and "add_change_column df1 run again = Inr df2"
  shows "getitem df1 run = Inr (int_series (change_ids s)) \<and>
         getitem df2 again = Inr (int_series (change_ids s)) \<and>
         (s \<noteq> [] \<longrightarrow>
            (last (change_ids s) = int (length s) \<longleftrightarrow>
             (\<forall>i. Suc i < length s \<longrightarrow> ne_cell (s ! Suc i) (s ! i))))"
proof -
  have c1: "getitem df1 run = Inr (int_series (change_ids s))"
    using assms(1,2) by (rule add_change_column_column)
  have c2: "getitem df2 again = Inr (int_series (change_ids (int_series (change_ids s))))"
    using c1 assms(3) by (rule add_change_column_column)
  have c3: "last (change_ids s) = int (length s) \<longleftrightarrow>
             (\<forall>i. Suc i < length s \<longrightarrow> ne_cell (s ! Suc i) (s ! i))" if ne: "s \<noteq> []"
  proof -
    from ne obtain n where n: "length s = Suc n" by (cases s) auto
    have "last (change_ids s) = change_ids s ! n"
      using n by (simp add: last_conv_nth length_change_ids
          flip: length_0_conv [of "change_ids s"])
    then show ?thesis using change_ids_full_iff [of n s] n by auto
  qed
  show ?thesis using c1 c2 c3 by (simp add: change_ids_idem)
qed

text \<open>The amended C5 at the values A, A, B: two runs both times, in three rows.\<close>

theorem add_change_column_again_same_ids_witness:
  "getitem [(''v'', [Str ''A'', Str ''A'', Str ''B''])] ''v'' = Inr [Str ''A'', Str ''A'', Str ''B''] \<and>
   add_change_column [(''v'', [Str ''A'', Str ''A'', Str ''B''])] ''v'' ''run'' =
     Inr [(''v'', [Str ''A'', Str ''A'', Str ''B'']), (''run'', [Num 1, Num 1, Num 2])] \<and>
   add_change_column [(''v'', [Str ''A'', Str ''A'', Str ''B'']), (''run'', [Num 1, Num 1, Num 2])]
       ''run'' ''again'' =
     Inr [(''v'', [Str ''A'', Str ''A'', Str ''B'']), (''run'', [Num 1, Num 1, Num 2]),
          (''again'', [Num 1, Num 1, Num 2])] \<and>
   [Str ''A'', Str ''A'', Str ''B''] \<noteq> [] \<and>
   getitem [(''v'', [Str ''A'', Str ''A'', Str ''B'']), (''run'', [Num 1, Num 1, Num 2]),
          (''again'', [Num 1, Num 1, Num 2])] ''again'' =
     Inr (int_series (change_ids [Str ''A'', Str ''A'', Str ''B''])) \<and>
   last (change_ids [Str ''A'', Str ''A'', Str ''B'']) \<noteq> int (length [Str ''A'', Str ''A'', Str ''B''])"
proof -
  let ?s = "[Str ''A'', Str ''A'', Str ''B'']"
  have h1: "getitem [(''v'', ?s)] ''v'' = Inr ?s"
    by (simp add: getitem_def)
  have h2: "add_change_column [(''v'', ?s)] ''v'' ''run'' =
     Inr [(''v'', ?s), (''run'', [Num 1, Num 1, Num 2])]"
    by (simp add: eval_defs)
  have h3: "add_change_column [(''v'', ?s), (''run'', [Num 1, Num 1, Num 2])] ''run'' ''again'' =
     Inr [(''v'', ?s), (''run'', [Num 1, Num 1, Num 2]), (''again'', [Num 1, Num 1, Num 2])]"
    by (simp add: eval_defs)
  have h4: "\<not> (\<forall>i. Suc i < length ?s \<longrightarrow> ne_cell (?s ! Suc i) (?s ! i))"
    by (auto intro: exI [of _ 0])
  show ?thesis
    using h1 h2 h3 h4 add_change_column_again_same_ids [OF h1 h2 h3] by simp
qed

text \<open>
  Claim C5 as stated fails at the values A, A. Both rows carry the run id 1, and detecting
  changes in these ids gives 1, 1 again: one run, not two.
\<close>

theorem add_change_column_again_counterexample:
  "add_change_column [(''v'', [Str ''A'', Str ''A''])] ''v'' ''run'' =
     Inr [(''v'', [Str ''A'', Str ''A'']), (''run'', [Num 1, Num 1])] \<and>
   add_change_column [(''v'', [Str ''A'', Str ''A'']), (''run'', [Num 1, Num 1])] ''run'' ''again'' =
     Inr [(''v'', [Str ''A'', Str ''A'']), (''run'', [Num 1, Num 1]), (''again'', [Num 1, Num 1])] \<and>
   change_ids (int_series (change_ids [Str ''A'', Str ''A''])) = [1, 1] \<and>
   last (change_ids (int_series (change_ids [Str ''A'', Str ''A'']))) \<noteq> int (length [Str ''A'', Str ''A'']) \<and>
   \<not> distinct (change_ids [Str ''A'', Str ''A''])"
  by (simp add: eval_defs)


subsection \<open>The normalised column\<close>

lemma float_cell_0: "float_cell 0 = Num 0"
  by (simp add: float_cell_def round64_0)


lemma sub_cell_same_Num: "sub_cell (Num x) (Num x) = Inr (Num 0)"
  by (simp add: float_cell_0)

lemma sub_cell_same_I64: "sub_cell (I64 a) (I64 a) = Inr (I64 0)"
  by simp


text \<open>
  Claim C1, as amended. When the grouping column holds the run ids of
  add\_change\_column, the column written by add\_normalised\_column is 0 at the first row
  of every run whose target value there is a finite number. Where that value is missing
  or infinite, the column is missing there.
\<close>

theorem normalised_first_row_of_run_is_zero:
  assumes "getitem df source_column = Inr s"
    and "add_change_column df source_column grouping_column = Inr df1"
    and "getitem df1 target_column = Inr vals" and "length vals = length s"
    and "add_normalised_column df1 grouping_column target_column new_column_name = Inr df2"
    and "new_column_name @ '' NEW'' \<noteq> target_column @ ''_at_change''"
    and "i < length s" and "i = 0 \<or> change_ids s ! (i - 1) \<noteq> change_ids s ! i"
  shows "\<exists>out. getitem df2 (new_column_name @ '' NEW'') = Inr out \<and> length out = length s \<and>
               (\<forall>x. vals ! i = Num x \<longrightarrow> out ! i = Num 0) \<and>
               (\<forall>a. vals ! i = I64 a \<longrightarrow> out ! i = I64 0) \<and>
               (vals ! i = PInf \<or> vals ! i = NInf \<or> vals ! i = NaN \<longrightarrow> out ! i = NaN)"
proof -
  let ?keys = "int_series (change_ids s)"
  have keys: "getitem df1 grouping_column = Inr ?keys"
    using assms(1,2) by (rule add_change_column_column)
  from add_normalised_column_result [OF keys assms(3) assms(5) assms(6)] obtain out where
    out: "sub_series vals (groupby_transform_first ?keys vals) = Inr out"
    and col: "getitem df2 (new_column_name @ '' NEW'') = Inr out"
    by blast
  have len: "length out = length s"
    using sub_series_length [OF out] assms(4)
    by (simp add: length_groupby_transform_first length_int_series length_change_ids)
  have ik: "i < length ?keys"
    using assms(7) by (simp add: length_int_series length_change_ids)
  have before: "\<forall>j<i. ?keys ! j \<noteq> ?keys ! i"
  proof (intro allI impI)
    fix j assume j: "j < i"
    then have "change_ids s ! j < change_ids s ! i"
      using change_ids_before_run_start [OF assms(7,8)] by simp
    then show "?keys ! j \<noteq> ?keys ! i"
      using j assms(7) by (simp add: int_series_nth length_change_ids)
  qed
  have kn: "?keys ! i \<noteq> NaN"
    using assms(7) by (simp add: int_series_nth length_change_ids)
  have g: "groupby_transform_first ?keys vals ! i =
      first_valid (map snd (filter (\<lambda>(k', v). k' = ?keys ! i) (zip ?keys vals)))"
    using kn ik by (rule groupby_transform_first_nth [rotated])
  have sub: "sub_cell (vals ! i) (groupby_transform_first ?keys vals ! i) = Inr (out ! i)"
    using sub_series_nth [OF out, of i] len assms(7) by simp
  have same: "groupby_transform_first ?keys vals ! i = vals ! i" if "vals ! i \<noteq> NaN"
  proof -
    have "first_valid (map snd (filter (\<lambda>(k', v). k' = ?keys ! i) (zip ?keys vals))) = vals ! i"
      using ik _ before that by (rule group_first_at_start) (simp add: assms(4,7))
    with g show ?thesis by simp
  qed
  have 1: "\<forall>x. vals ! i = Num x \<longrightarrow> out ! i = Num 0"
    using sub same by (auto simp: float_cell_0)
  have 2: "\<forall>a. vals ! i = I64 a \<longrightarrow> out ! i = I64 0"
    using sub same by auto
  have 3: "vals ! i = PInf \<or> vals ! i = NInf \<or> vals ! i = NaN \<longrightarrow> out ! i = NaN"
    using sub same by auto
  from col len 1 2 3 show ?thesis by blast
qed

lemma float_cell_of_int: "\<bar>k\<bar> < 2 ^ 53 \<Longrightarrow> float_cell (of_int k) = Num (of_int k)"
proof -
  assume k: "\<bar>k\<bar> < 2 ^ 53"
  have "\<bar>real_of_int k\<bar> < 2 ^ 53"
    using k by (metis of_int_abs of_int_less_numeral_power_cancel_iff)
  also have "(2::real) ^ 53 \<le> 2 ^ 1024" by (rule power_increasing) simp_all
  finally show ?thesis using k by (simp add: float_cell_def round64_of_int)
qed

lemma float_cell_4: "float_cell 4 = Num 4"
  using float_cell_of_int [of 4] by simp

text \<open>The amended C1 at the second row of a table of three rows, where a run starts.\<close>

theorem normalised_first_row_of_run_is_zero_witness:
  "\<exists>out. getitem [(''g'', [Str ''A'', Str ''B'', Str ''B'']), (''t'', [Num 3, Num 5, Num 9]),
                  (''run'', [Num 1, Num 2, Num 2]), (''n NEW'', [Num 0, Num 0, Num 4])] ''n NEW'' = Inr out \<and>
         length out = length [Str ''A'', Str ''B'', Str ''B''] \<and> out ! 1 = Num 0"
proof -
  let ?s = "[Str ''A'', Str ''B'', Str ''B'']"
  let ?df = "[(''g'', ?s), (''t'', [Num 3, Num 5, Num 9])]"
  let ?df1 = "[(''g'', ?s), (''t'', [Num 3, Num 5, Num 9]), (''run'', [Num 1, Num 2, Num 2])]"
  let ?df2 = "[(''g'', ?s), (''t'', [Num 3, Num 5, Num 9]), (''run'', [Num 1, Num 2, Num 2]),
               (''n NEW'', [Num 0, Num 0, Num 4])]"
  have h1: "getitem ?df ''g'' = Inr ?s" by (simp add: getitem_def)
  have h2: "add_change_column ?df ''g'' ''run'' = Inr ?df1" by (simp add: eval_defs)
  have h3: "getitem ?df1 ''t'' = Inr [Num 3, Num 5, Num 9]" by (simp add: getitem_def)
  have h4: "length [Num 3, Num 5, Num 9] = length ?s" by simp
  have h5: "add_normalised_column ?df1 ''run'' ''t'' ''n'' = Inr ?df2"
    by (simp add: eval_defs float_cell_0 float_cell_4)
  have h6: "''n'' @ '' NEW'' \<noteq> ''t'' @ ''_at_change''" by simp
  have h7: "1 < length ?s" by simp
  have h8: "(1::nat) = 0 \<or> change_ids ?s ! (1 - 1) \<noteq> change_ids ?s ! 1" by (simp add: eval_defs)
  show ?thesis
    using normalised_first_row_of_run_is_zero [OF h1 h2 h3 h4 h5 h6 h7 h8] by simp
qed

text \<open>
  Claim C1 as stated fails at a run whose first target value is infinite: the value is
  not missing, and the difference of the infinity and itself is not 0 but missing.
\<close>

theorem normalised_first_row_infinite_counterexample:
  "add_change_column [(''g'', [Str ''A'']), (''t'', [PInf])] ''g'' ''run'' =
     Inr [(''g'', [Str ''A'']), (''t'', [PInf]), (''run'', [Num 1])] \<and>
   add_normalised_column [(''g'', [Str ''A'']), (''t'', [PInf]), (''run'', [Num 1])]
       ''run'' ''t'' ''n'' =
     Inr [(''g'', [Str ''A'']), (''t'', [PInf]), (''run'', [Num 1]), (''n NEW'', [NaN])] \<and>
   [PInf] ! 0 \<noteq> NaN \<and> [NaN] ! 0 \<noteq> Num 0"
  by (simp add: eval_defs)





subsection \<open>The check of the needed columns\<close>















section \<open>Properties of the image pipeline\<close>

subsection \<open>Running sums and counts\<close>

lemma apply_diameter_length: "apply_diameter as = Inr ds \<Longrightarrow> length ds = length as"
  by (induction as arbitrary: ds) (auto split: sum.splits)

lemma length_cumsum_from: "length (cumsum_from acc xs) = length xs"
  by (induction xs arbitrary: acc) simp_all


lemma update_and_save_dataframe_rows:
  assumes "update_and_save_dataframe sort_values images_df sort_by calculate_percent = Inr out"
  obtains sorted_df diameter where
    "sort_values sort_by images_df = Inr sorted_df"
    "apply_diameter (map Area sorted_df) = Inr diameter"
    "length out = length sorted_df"
    "map Diameter out = diameter"
    "map Freq out = map (value_counts diameter) diameter"
    "map Cumulative_Freq out = cumsum (map (value_counts diameter) diameter)"
    "map Percentage_of_Particle out =
       (if calculate_percent
        then map (\<lambda>index. Some (fmul (fdiv (round64 (real (index + 1)))
                                         (round64 (real (length sorted_df)))) (round64 100)))
               [0..<length sorted_df]
        else replicate (length sorted_df) None)"
proof -
  from assms obtain sorted_df diameter where
    s: "sort_values sort_by images_df = Inr sorted_df"
    and d: "apply_diameter (map Area sorted_df) = Inr diameter"
    by (auto simp: update_and_save_dataframe_def split: sum.splits)
  have ld: "length diameter = length sorted_df"
    using apply_diameter_length [OF d] by simp
  let ?n = "length sorted_df"
  let ?freq = "map (value_counts diameter) diameter"
  let ?cum = "cumsum ?freq"
  let ?pct = "if calculate_percent
        then map (\<lambda>index. Some (fmul (fdiv (round64 (real (index + 1)))
                                         (round64 (real ?n))) (round64 100))) [0..<?n]
        else replicate ?n None"
  have out: "out = map (\<lambda>k. \<lparr>Grid = Grid (sorted_df ! k), Mask = Mask (sorted_df ! k),
                               Area = Area (sorted_df ! k), Diameter = diameter ! k,
                               Freq = ?freq ! k, Cumulative_Freq = ?cum ! k,
                               Percentage_of_Particle = ?pct ! k\<rparr>) [0..<?n]"
    using assms s d by (simp add: update_and_save_dataframe_def Let_def)
  have l: "length out = ?n" by (simp add: out)
  have 1: "map Diameter out = diameter"
    by (rule nth_equalityI) (simp_all add: out ld)
  have 2: "map Freq out = ?freq"
    by (rule nth_equalityI) (simp_all add: out ld)
  have 3: "map Cumulative_Freq out = ?cum"
    by (rule nth_equalityI) (simp_all add: out ld cumsum_def length_cumsum_from)
  have 4: "map Percentage_of_Particle out = ?pct"
    by (rule nth_equalityI) (simp_all add: out)
  show thesis using that [OF s d l 1 2 3 4] .
qed







subsection \<open>The area of a mask in float64\<close>

lemma countNonZero_rows:
  "countNonZero (Some img) = (\<Sum>row\<leftarrow>img. card {j. j < length row \<and> row ! j \<noteq> 0})"
proof -
  have "length (filter (\<lambda>p. p \<noteq> 0) (concat img)) =
        (\<Sum>row\<leftarrow>img. length (filter (\<lambda>p. p \<noteq> 0) row))"
    by (induction img) simp_all
  then show ?thesis
    by (simp add: countNonZero_def length_filter_conv_card)
qed

lemma area_of_pixel_value: "round64 (4.92843 / 10 ^ 5) = 7273078951615389 / 2 ^ 67"
  using round64_eval [of "4.92843 / 10 ^ 5" 67] by (simp add: round_half_even_def)

lemma area_of_2000_pixels:
  "fmul (fmul (round64 (4.92843 / 10 ^ 5)) (round64 2000)) (round64 1000) =
   6936148597350491 / 2 ^ 46"
proof -
  have a: "fmul (7273078951615389 / 2 ^ 67) 2000 = 7102616163686903 / 2 ^ 56"
    using round64_eval [of "7273078951615389 / 2 ^ 67 * 2000" 56]
    by (simp add: fmul_def round_half_even_def)
  have b: "fmul (7102616163686903 / 2 ^ 56) 1000 = 6936148597350491 / 2 ^ 46"
    using round64_eval [of "7102616163686903 / 2 ^ 56 * 1000" 46]
    by (simp add: fmul_def round_half_even_def)
  have r2: "round64 2000 = 2000" by (simp add: round64_numeral)
  have r1: "round64 1000 = 1000" by (simp add: round64_numeral)
  have "fmul (fmul (round64 (4.92843 / 10 ^ 5)) (round64 2000)) (round64 1000) =
        fmul (fmul (7273078951615389 / 2 ^ 67) 2000) 1000"
    by (simp only: area_of_pixel_value r1 r2)
  also have "\<dots> = fmul (7102616163686903 / 2 ^ 56) 1000" by (simp only: a)
  also have "\<dots> = 6936148597350491 / 2 ^ 46" by (rule b)
  finally show ?thesis .
qed

lemma float_98_5686: "round64 98.5686 = 6936148597350492 / 2 ^ 46"
  using round64_eval [of "98.5686" 46] by (simp add: round_half_even_def)

subsection \<open>The percentage column in float64\<close>

text \<open>
  The quotient (k + 1) / n is rounded with an error of at most \<open>2 ^ - 53\<close>, and the product
  with 100 with an error of at most \<open>2 ^ - 46\<close>.
\<close>

lemma two_roundings:
  fixes x q p :: real
  assumes "0 \<le> x" "x \<le> 1" "\<bar>q - x\<bar> \<le> 1 / 2 ^ 53" "\<bar>q * 100\<bar> < 256 \<longrightarrow> \<bar>p - q * 100\<bar> \<le> 1 / 2 ^ 46"
  shows "\<bar>p - x * 100\<bar> \<le> 57 / 2 ^ 51"
proof -
  have e: "(1::real) / 2 ^ 53 \<le> 1" by simp
  have q: "- 1 \<le> q" "q \<le> 2" using assms(1-3) e by linarith+
  hence "\<bar>q * 100\<bar> < 256" by linarith
  hence pq: "\<bar>p - q * 100\<bar> \<le> 1 / 2 ^ 46" using assms(4) by simp
  have "\<bar>q * 100 - x * 100\<bar> \<le> 100 / 2 ^ 53" using assms(3) by linarith
  moreover have "(100::real) / 2 ^ 53 + 1 / 2 ^ 46 = 57 / 2 ^ 51" by simp
  ultimately show ?thesis using pq by linarith
qed

lemma separated:
  fixes p q x y b g :: real
  assumes "\<bar>p - x\<bar> \<le> b" "\<bar>q - y\<bar> \<le> b" "g \<le> y - x" "b + b < g"
  shows "p < q"
  using assms by linarith

lemma percentage_close:
  assumes "n \<le> 2 ^ 50" "k < n"
  shows "\<bar>fmul (fdiv (round64 (real (k + 1))) (round64 (real n))) (round64 100) -
          real (k + 1) / real n * 100\<bar> \<le> 57 / 2 ^ 51"
proof -
  have "(2::nat) ^ 50 < 2 ^ 53" by simp
  hence n53: "n < 2 ^ 53" using assms(1) by (rule le_less_trans [rotated])
  have k53: "k + 1 < 2 ^ 53" using assms(2) n53 by simp
  let ?x = "real (k + 1) / real n"
  let ?q = "round64 ?x"
  have npos: "0 < real n" using assms(2) by simp
  have "real (k + 1) \<le> real n" using assms(2) by (simp only: of_nat_le_iff)
  hence x1: "?x \<le> 1" using npos by (simp only: divide_le_eq_1_pos)
  have x0: "0 \<le> ?x" by (rule divide_nonneg_nonneg) simp_all
  note x01 = x0 x1
  have "\<bar>?x\<bar> < 2" using x01 by linarith
  hence eq: "\<bar>?q - ?x\<bar> \<le> 1 / 2 ^ 53" by (rule round64_error_2)
  have ep: "\<bar>?q * 100\<bar> < 256 \<longrightarrow> \<bar>round64 (?q * 100) - ?q * 100\<bar> \<le> 1 / 2 ^ 46"
    using round64_error_256 by blast
  have r100: "round64 100 = 100" by (simp add: round64_numeral)
  have "fmul (fdiv (round64 (real (k + 1))) (round64 (real n))) (round64 100) =
        round64 (?q * 100)"
    by (simp only: fmul_def fdiv_def round64_of_nat [OF n53] round64_of_nat [OF k53] r100)
  moreover have "\<bar>round64 (?q * 100) - ?x * 100\<bar> \<le> 57 / 2 ^ 51"
    using x01 eq ep by (rule two_roundings)
  ultimately show ?thesis by (simp only:)
qed

lemma percentage_increasing:
  assumes "n \<le> 2 ^ 50" "j < k" "k < n"
  shows "fmul (fdiv (round64 (real (j + 1))) (round64 (real n))) (round64 100) <
         fmul (fdiv (round64 (real (k + 1))) (round64 (real n))) (round64 100)"
proof -
  have npos: "0 < real n" using assms(3) by simp
  have n50: "real n \<le> 2 ^ 50" using assms(1)
    by (metis of_nat_le_iff of_nat_numeral of_nat_power)
  have a: "100 / 2 ^ 50 \<le> 100 / real n"
    using npos n50 by (intro divide_left_mono) simp_all
  have "real (j + 1) + 1 \<le> real (k + 1)" using assms(2) by simp
  hence "(real (j + 1) + 1) * 100 / real n \<le> real (k + 1) * 100 / real n"
    using npos by (intro divide_right_mono) simp_all
  moreover have "(real (j + 1) + 1) * 100 / real n = real (j + 1) / real n * 100 + 100 / real n"
    by (simp only: distrib_right add_divide_distrib times_divide_eq_left mult_1)
  moreover have "real (k + 1) * 100 / real n = real (k + 1) / real n * 100"
    by (simp only: times_divide_eq_left)
  ultimately have gap: "100 / 2 ^ 50 \<le> real (k + 1) / real n * 100 - real (j + 1) / real n * 100"
    using a by linarith
  have jn: "j < n" using assms(2,3) by simp
  have cj: "\<bar>fmul (fdiv (round64 (real (j + 1))) (round64 (real n))) (round64 100) -
          real (j + 1) / real n * 100\<bar> \<le> 57 / 2 ^ 51"
    using assms(1) jn by (rule percentage_close)
  have ck: "\<bar>fmul (fdiv (round64 (real (k + 1))) (round64 (real n))) (round64 100) -
          real (k + 1) / real n * 100\<bar> \<le> 57 / 2 ^ 51"
    using assms(1,3) by (rule percentage_close)
  have b: "(57::real) / 2 ^ 51 + 57 / 2 ^ 51 < 100 / 2 ^ 50" by simp
  show ?thesis using cj ck gap b by (rule separated)
qed

lemma percentage_last:
  assumes "0 < n" "n < 2 ^ 53"
  shows "fmul (fdiv (round64 (real n)) (round64 (real n))) (round64 100) = 100"
proof -
  have "real n \<noteq> 0" using assms(1) by simp
  hence "fdiv (real n) (real n) = 1" by (simp add: fdiv_def round64_1)
  thus ?thesis by (simp add: round64_of_nat [OF assms(2)] fmul_def round64_numeral)
qed

lemma percentage_first:
  assumes "n < 2 ^ 53"
  shows "fmul (fdiv (round64 (real (0 + 1))) (round64 (real n))) (round64 100) =
         fmul (fdiv 1 (real n)) 100"
  by (simp add: round64_of_nat [OF assms] round64_1 round64_numeral)

text \<open>The float64 quotients and products of the tables of two and three rows.\<close>

lemma fdiv_1_2: "fdiv 1 2 = 1 / 2"
  using round64_eval [of "1 / 2" 53] by (simp add: fdiv_def round_half_even_def)

lemma fmul_half_100: "fmul (1 / 2) 100 = 50"
  by (simp add: fmul_def round64_numeral)

lemma fmul_1_100: "fmul 1 100 = 100"
  by (simp add: fmul_def round64_numeral)

lemma fdiv_1_3: "fdiv 1 3 = 6004799503160661 / 2 ^ 54"
  using round64_eval [of "1 / 3" 54] by (simp add: fdiv_def round_half_even_def)

lemma fdiv_2_3: "fdiv 2 3 = 6004799503160661 / 2 ^ 53"
  using round64_eval [of "2 / 3" 53] by (simp add: fdiv_def round_half_even_def)

lemma fdiv_100_3: "fdiv 100 3 = 4691249611844267 / 2 ^ 47"
  using round64_eval [of "100 / 3" 47] by (simp add: fdiv_def round_half_even_def)

lemma fmul_third_100: "fmul (6004799503160661 / 2 ^ 54) 100 = 4691249611844266 / 2 ^ 47"
  using round64_eval [of "6004799503160661 / 2 ^ 54 * 100" 47]
  by (simp add: fmul_def round_half_even_def)

lemma fmul_two_thirds_100: "fmul (6004799503160661 / 2 ^ 53) 100 = 4691249611844266 / 2 ^ 46"
  using round64_eval [of "6004799503160661 / 2 ^ 53 * 100" 46]
  by (simp add: fmul_def round_half_even_def)


subsection \<open>Frequencies\<close>

lemmas mask_defs = update_and_save_dataframe_def sort_values_stable_def
  image_columns_def key_of_def column_value_def get_diameter_from_area_def value_counts_def
  cumsum_def Let_def less_val_def



subsection \<open>Areas\<close>

text \<open>
  Claim C9, as amended. The area returned for a mask that was read is the float64 product
  of 4.92843e-05 and the number of its non-zero pixels, multiplied in float64 by 1000, each
  product rounded; the number of non-zero pixels is the sum over the rows of the number of
  positions with a non-zero value. A file that cannot be read gives the area 0. A mask
  with 2000 non-zero pixels gives 98.56859999999999, which is
  \<open>6936148597350491 / 2 ^ 46\<close> and lies within \<open>3 / 10 ^ 14\<close> of 98.5686.
\<close>

theorem get_mask_area_of_pixel_count:
  "get_mask_area (Some img) =
     fmul (fmul (round64 (4.92843 / 10 ^ 5))
                (round64 (real (\<Sum>row\<leftarrow>img. card {j. j < length row \<and> row ! j \<noteq> 0}))))
          (round64 1000) \<and>
   get_mask_area None = 0 \<and>
   ((\<Sum>row\<leftarrow>img. card {j. j < length row \<and> row ! j \<noteq> 0}) = 2000 \<longrightarrow>
      get_mask_area (Some img) = 6936148597350491 / 2 ^ 46 \<and>
      \<bar>get_mask_area (Some img) - 98.5686\<bar> < 3 / 10 ^ 14)"
proof -
  have 1: "get_mask_area (Some img) =
     fmul (fmul (round64 (4.92843 / 10 ^ 5))
                (round64 (real (\<Sum>row\<leftarrow>img. card {j. j < length row \<and> row ! j \<noteq> 0}))))
          (round64 1000)"
    by (simp add: get_mask_area_def Let_def countNonZero_rows)
  have 2: "get_mask_area None = 0"
    by (simp add: get_mask_area_def countNonZero_def fmul_def round64_0)
  have 3: "get_mask_area (Some img) = 6936148597350491 / 2 ^ 46 \<and>
      \<bar>get_mask_area (Some img) - 98.5686\<bar> < 3 / 10 ^ 14"
    if "(\<Sum>row\<leftarrow>img. card {j. j < length row \<and> row ! j \<noteq> 0}) = 2000"
  proof -
    have "get_mask_area (Some img) =
      fmul (fmul (round64 (4.92843 / 10 ^ 5)) (round64 2000)) (round64 1000)"
      using 1 that by simp
    then have v: "get_mask_area (Some img) = 6936148597350491 / 2 ^ 46"
      by (simp only: area_of_2000_pixels)
    have "\<bar>6936148597350491 / 2 ^ 46 - 98.5686\<bar> < (3 / 10 ^ 14 :: real)" by simp
    with v show ?thesis by simp
  qed
  from 1 2 3 show ?thesis by blast
qed

text \<open>The statement of C9 at a mask of 2000 white and 48 black pixels.\<close>

theorem get_mask_area_of_pixel_count_witness:
  "(\<Sum>row\<leftarrow>[replicate 2000 255, replicate 48 0]. card {j. j < length row \<and> row ! j \<noteq> (0 :: 8 word)}) = 2000 \<and>
   get_mask_area (Some [replicate 2000 255, replicate 48 0]) = 6936148597350491 / 2 ^ 46"
proof -
  have "countNonZero (Some [replicate 2000 255, replicate 48 0]) = 2000"
    by (simp add: countNonZero_def)
  then have h: "(\<Sum>row\<leftarrow>[replicate 2000 255, replicate 48 0].
      card {j. j < length row \<and> row ! j \<noteq> (0 :: 8 word)}) = 2000"
    by (simp only: countNonZero_rows)
  show ?thesis
    using h get_mask_area_of_pixel_count [of "[replicate 2000 255, replicate 48 0]"] by blast
qed

text \<open>
  Claim C9 as stated fails at that mask: the area is not the float64 number 98.5686,
  which is \<open>6936148597350492 / 2 ^ 46\<close>, and not the real number 98.5686.
\<close>

theorem get_mask_area_2000_pixels_counterexample:
  "get_mask_area (Some [replicate 2000 255, replicate 48 0]) = 6936148597350491 / 2 ^ 46 \<and>
   round64 98.5686 = 6936148597350492 / 2 ^ 46 \<and>
   get_mask_area (Some [replicate 2000 255, replicate 48 0]) \<noteq> round64 98.5686 \<and>
   get_mask_area (Some [replicate 2000 255, replicate 48 0]) \<noteq> 98.5686"
proof -
  have c: "countNonZero (Some [replicate 2000 255, replicate 48 0]) = 2000"
    by (simp add: countNonZero_def)
  have v: "get_mask_area (Some [replicate 2000 255, replicate 48 0]) = 6936148597350491 / 2 ^ 46"
    unfolding get_mask_area_def Let_def c using area_of_2000_pixels by simp
  have n1: "(6936148597350491 / 2 ^ 46 :: real) \<noteq> 6936148597350492 / 2 ^ 46" by simp
  have n2: "(6936148597350491 / 2 ^ 46 :: real) \<noteq> 98.5686" by simp
  from v float_98_5686 n1 n2 show ?thesis by simp
qed

subsection \<open>Percentages\<close>

text \<open>
  Claim C7, as amended. With calculate\_percent, the row at position k of the sorted table
  of N rows gets the float64 value of (k + 1) / N, rounded, times 100, rounded. For a
  table of at most \<open>2 ^ 50\<close> rows, that value is within \<open>57 / 2 ^ 51\<close> of
  (k + 1) / N * 100, the column grows strictly from row to row, its first value is the
  float64 product of the float64 quotient 1 / N and 100, and its last value is 100.
\<close>

theorem percentage_of_particle_column:
  assumes "update_and_save_dataframe sort_values images_df sort_by True = Inr out"
  shows "(\<forall>k<length out.
            Percentage_of_Particle (out ! k) =
              Some (fmul (fdiv (round64 (real (k + 1))) (round64 (real (length out))))
                      (round64 100))) \<and>
         (length out \<le> 2 ^ 50 \<longrightarrow>
            (\<forall>k<length out. \<exists>p. Percentage_of_Particle (out ! k) = Some p \<and>
               \<bar>p - real (k + 1) / real (length out) * 100\<bar> \<le> 57 / 2 ^ 51) \<and>
            (\<forall>j k. j < k \<and> k < length out \<longrightarrow>
               (\<exists>p q. Percentage_of_Particle (out ! j) = Some p \<and>
                      Percentage_of_Particle (out ! k) = Some q \<and> p < q)) \<and>
            (out \<noteq> [] \<longrightarrow>
               Percentage_of_Particle (hd out) = Some (fmul (fdiv 1 (real (length out))) 100) \<and>
               Percentage_of_Particle (last out) = Some 100)) \<and>
         (\<forall>sorted_df. sort_values sort_by images_df = Inr sorted_df \<longrightarrow>
            length out = length sorted_df)"
proof -
  from assms obtain sorted_df where
    s: "sort_values sort_by images_df = Inr sorted_df"
    and l: "length out = length sorted_df"
    and p: "map Percentage_of_Particle out =
       map (\<lambda>index. Some (fmul (fdiv (round64 (real (index + 1)))
                                   (round64 (real (length sorted_df)))) (round64 100)))
         [0..<length sorted_df]"
    by (rule update_and_save_dataframe_rows) simp
  let ?n = "length out"
  let ?pct = "\<lambda>k. fmul (fdiv (round64 (real (k + 1))) (round64 (real ?n))) (round64 100)"
  have nth: "Percentage_of_Particle (out ! k) = Some (?pct k)" if "k < ?n" for k
  proof -
    have "Percentage_of_Particle (out ! k) = map Percentage_of_Particle out ! k"
      using that by simp
    also have "\<dots> = Some (?pct k)"
      using that l by (simp add: p del: of_nat_add of_nat_Suc)
    finally show ?thesis .
  qed
  have 1: "\<forall>k<?n. Percentage_of_Particle (out ! k) = Some (?pct k)"
    using nth by blast
  have 2: "(\<forall>k<?n. \<exists>p. Percentage_of_Particle (out ! k) = Some p \<and>
               \<bar>p - real (k + 1) / real ?n * 100\<bar> \<le> 57 / 2 ^ 51) \<and>
            (\<forall>j k. j < k \<and> k < ?n \<longrightarrow>
               (\<exists>p q. Percentage_of_Particle (out ! j) = Some p \<and>
                      Percentage_of_Particle (out ! k) = Some q \<and> p < q)) \<and>
            (out \<noteq> [] \<longrightarrow>
               Percentage_of_Particle (hd out) = Some (fmul (fdiv 1 (real ?n)) 100) \<and>
               Percentage_of_Particle (last out) = Some 100)"
    if small: "?n \<le> 2 ^ 50"
  proof (intro conjI allI impI)
    fix k assume k: "k < ?n"
    have "\<bar>?pct k - real (k + 1) / real ?n * 100\<bar> \<le> 57 / 2 ^ 51"
      using small k by (rule percentage_close)
    with nth [OF k]
    show "\<exists>p. Percentage_of_Particle (out ! k) = Some p \<and>
               \<bar>p - real (k + 1) / real ?n * 100\<bar> \<le> 57 / 2 ^ 51"
      by blast
  next
    fix j k assume jk: "j < k \<and> k < ?n"
    hence j: "j < ?n" by simp
    have "?pct j < ?pct k" using small jk by (intro percentage_increasing) simp_all
    with nth [OF j] nth [of k] jk
    show "\<exists>p q. Percentage_of_Particle (out ! j) = Some p \<and>
                Percentage_of_Particle (out ! k) = Some q \<and> p < q"
      by blast
  next
    assume ne: "out \<noteq> []"
    hence pos: "0 < ?n" by simp
    have "(2::nat) ^ 50 < 2 ^ 53" by simp
    hence n53: "?n < 2 ^ 53" using small by (rule le_less_trans [rotated])
    have "Percentage_of_Particle (out ! 0) = Some (?pct 0)" using pos by (rule nth)
    moreover have "hd out = out ! 0" using ne by (simp add: hd_conv_nth)
    ultimately show "Percentage_of_Particle (hd out) = Some (fmul (fdiv 1 (real ?n)) 100)"
      by (simp only: percentage_first [OF n53])
  next
    assume ne: "out \<noteq> []"
    hence pos: "0 < ?n" by simp
    have "(2::nat) ^ 50 < 2 ^ 53" by simp
    hence n53: "?n < 2 ^ 53" using small by (rule le_less_trans [rotated])
    have r: "?n - 1 + 1 = ?n" using pos by simp
    have "Percentage_of_Particle (out ! (?n - 1)) = Some (?pct (?n - 1))"
      using pos by (intro nth) simp
    moreover have "last out = out ! (?n - 1)" using ne by (simp add: last_conv_nth)
    ultimately show "Percentage_of_Particle (last out) = Some 100"
      by (simp only: r percentage_last [OF pos n53])
  qed
  have 3: "\<forall>sorted_df. sort_values sort_by images_df = Inr sorted_df \<longrightarrow>
            length out = length sorted_df"
    using s l by simp
  from 1 2 3 show ?thesis by blast
qed

text \<open>The statement of C7 at a table of two rows: 50 and 100.\<close>

theorem percentage_of_particle_column_witness:
  "update_and_save_dataframe sort_values_stable
     [\<lparr>Grid = ''a1'', Mask = 2, Area = 2\<rparr>, \<lparr>Grid = ''a1'', Mask = 3, Area = 1\<rparr>] [''Area''] True =
   Inr [\<lparr>Grid = ''a1'', Mask = 3, Area = 1, Diameter = sqrt (1 / pi) * 2, Freq = 1,
         Cumulative_Freq = 1, Percentage_of_Particle = Some 50\<rparr>,
        \<lparr>Grid = ''a1'', Mask = 2, Area = 2, Diameter = sqrt (2 / pi) * 2, Freq = 1,
         Cumulative_Freq = 2, Percentage_of_Particle = Some 100\<rparr>] \<and>
   Some (50::real) = Some (fmul (fdiv 1 (real (length [''first'', ''second'']))) 100) \<and>
   (50::real) < 100"
proof -
  let ?out = "[\<lparr>Grid = ''a1'', Mask = 3, Area = 1, Diameter = sqrt (1 / pi) * 2, Freq = 1,
         Cumulative_Freq = 1, Percentage_of_Particle = Some 50\<rparr>,
        \<lparr>Grid = ''a1'', Mask = 2, Area = 2, Diameter = sqrt (2 / pi) * 2, Freq = 1,
         Cumulative_Freq = 2, Percentage_of_Particle = Some (100::real)\<rparr>]"
  have h: "update_and_save_dataframe sort_values_stable
     [\<lparr>Grid = ''a1'', Mask = 2, Area = 2\<rparr>, \<lparr>Grid = ''a1'', Mask = 3, Area = 1\<rparr>] [''Area''] True =
     Inr ?out"
    by (simp add: mask_defs round64_1 round64_numeral fdiv_1_2 fdiv_same fmul_half_100 fmul_1_100)
  have ne: "?out \<noteq> []" by simp
  have small: "length ?out \<le> 2 ^ 50" by simp
  have "Percentage_of_Particle (hd ?out) = Some (fmul (fdiv 1 (real (length ?out))) 100) \<and>
        (\<exists>p q. Percentage_of_Particle (?out ! 0) = Some p \<and>
               Percentage_of_Particle (?out ! 1) = Some q \<and> p < q)"
    using percentage_of_particle_column [OF h] ne small by (simp del: One_nat_def)
  with h show ?thesis by simp
qed

text \<open>
  Claim C7 as stated fails at a table of three rows: the first percentage is
  33.33333333333333, which is \<open>4691249611844266 / 2 ^ 47\<close>; it is not the float64
  quotient 100 / 3, which is 33.333333333333336, and not the real number 100 / 3.
\<close>

theorem percentage_of_three_rows_counterexample:
  "update_and_save_dataframe sort_values_stable
     [\<lparr>Grid = ''a1'', Mask = 2, Area = 1\<rparr>, \<lparr>Grid = ''a1'', Mask = 3, Area = 2\<rparr>,
      \<lparr>Grid = ''a1'', Mask = 4, Area = 3\<rparr>] [''Area''] True =
   Inr [\<lparr>Grid = ''a1'', Mask = 2, Area = 1, Diameter = sqrt (1 / pi) * 2, Freq = 1,
         Cumulative_Freq = 1, Percentage_of_Particle = Some (4691249611844266 / 2 ^ 47)\<rparr>,
        \<lparr>Grid = ''a1'', Mask = 3, Area = 2, Diameter = sqrt (2 / pi) * 2, Freq = 1,
         Cumulative_Freq = 2, Percentage_of_Particle = Some (4691249611844266 / 2 ^ 46)\<rparr>,
        \<lparr>Grid = ''a1'', Mask = 4, Area = 3, Diameter = sqrt (3 / pi) * 2, Freq = 1,
         Cumulative_Freq = 3, Percentage_of_Particle = Some 100\<rparr>] \<and>
   fdiv 100 3 = 4691249611844267 / 2 ^ 47 \<and>
   (4691249611844266 / 2 ^ 47 :: real) \<noteq> fdiv 100 3 \<and>
   (4691249611844266 / 2 ^ 47 :: real) \<noteq> 100 / 3"
proof -
  have "update_and_save_dataframe sort_values_stable
     [\<lparr>Grid = ''a1'', Mask = 2, Area = 1\<rparr>, \<lparr>Grid = ''a1'', Mask = 3, Area = 2\<rparr>,
      \<lparr>Grid = ''a1'', Mask = 4, Area = 3\<rparr>] [''Area''] True =
   Inr [\<lparr>Grid = ''a1'', Mask = 2, Area = 1, Diameter = sqrt (1 / pi) * 2, Freq = 1,
         Cumulative_Freq = 1,
         Percentage_of_Particle = Some (fmul (fdiv 1 3) 100)\<rparr>,
        \<lparr>Grid = ''a1'', Mask = 3, Area = 2, Diameter = sqrt (2 / pi) * 2, Freq = 1,
         Cumulative_Freq = 2,
         Percentage_of_Particle = Some (fmul (fdiv 2 3) 100)\<rparr>,
        \<lparr>Grid = ''a1'', Mask = 4, Area = 3, Diameter = sqrt (3 / pi) * 2, Freq = 1,
         Cumulative_Freq = 3, Percentage_of_Particle = Some (fmul (fdiv 3 3) 100)\<rparr>]"
    by (simp add: mask_defs round64_1 round64_numeral)
  moreover have "fmul (fdiv 1 3) 100 = 4691249611844266 / 2 ^ 47"
    by (simp only: fdiv_1_3 fmul_third_100)
  moreover have "fmul (fdiv 2 3) 100 = 4691249611844266 / 2 ^ 46"
    by (simp only: fdiv_2_3 fmul_two_thirds_100)
  moreover have "fmul (fdiv 3 3) 100 = 100"
    by (simp add: fdiv_same fmul_1_100)
  moreover have "(4691249611844266 / 2 ^ 47 :: real) \<noteq> 4691249611844267 / 2 ^ 47" by simp
  moreover have "(4691249611844266 / 2 ^ 47 :: real) \<noteq> 100 / 3" by simp
  ultimately show ?thesis by (simp only: fdiv_100_3 simp_thms)
qed

end
